theory Spec2Isabelle
  imports Main
begin

section \<open>The storytelling chatbot's frame processors\<close>

text \<open>
  A shallow embedding of \<^verbatim>\<open>examples/storytelling-chatbot/src/processors.py\<close>:
  the class \<^verbatim>\<open>StoryProcessor\<close>, which accumulates the text streamed by the
  language model in a buffer, cuts image prompts \<^verbatim>\<open><...>\<close> and story pages
  (sentences ended by \<^verbatim>\<open>[break]\<close>) out of it, and pushes frames downstream.

  Python strings are sequences of code points; here a text is a \<^typ>\<open>string\<close>, a list
  of \<^typ>\<open>char\<close>, each standing for one code point below 256, so that
  \<^const>\<open>length\<close> is Python's \<^verbatim>\<open>len\<close>.
\<close>

subsection \<open>Frames\<close>

text \<open>
  Modelled from the spec: \<^verbatim>\<open>prompts.py\<close> is not among the sources; the spec
  gives the two cue payloads sent to the user interface as two fixed opaque values,
  the assistant's turn and the user's turn.
\<close>

datatype cue = CUE_USER_TURN | CUE_ASSISTANT_TURN

text \<open>
  Modelled from the spec: \<^verbatim>\<open>utils.helpers.load_sounds\<close> is not among the
  sources; \<^verbatim>\<open>sounds\<close> holds one cached audio frame for each of the three
  named assets, looked up by name.
\<close>

datatype sound = talking | listening | ding

text \<open>
  The frame classes the processors tell apart. \<^verbatim>\<open>StoryPageFrame\<close>,
  \<^verbatim>\<open>StoryImageFrame\<close> and \<^verbatim>\<open>StoryPromptFrame\<close> are subclasses of
  \<^verbatim>\<open>TextFrame\<close>. \<open>OtherFrame\<close> stands for a frame of any other class, with a
  tag telling such frames apart.
\<close>

datatype frame =
    UserStoppedSpeakingFrame
  | TextFrame string
  | StoryPageFrame string
  | StoryImageFrame string
  | StoryPromptFrame string
  | LLMFullResponseEndFrame
  | DailyTransportMessageFrame cue
  | sounds sound
  | OtherFrame nat

text \<open>\<^verbatim>\<open>isinstance(frame, TextFrame)\<close> holds for the class and its subclasses.\<close>

fun isinstance_TextFrame :: "frame \<Rightarrow> bool" where
  "isinstance_TextFrame (TextFrame t) = True"
| "isinstance_TextFrame (StoryPageFrame t) = True"
| "isinstance_TextFrame (StoryImageFrame t) = True"
| "isinstance_TextFrame (StoryPromptFrame t) = True"
| "isinstance_TextFrame f = False"

text \<open>\<^verbatim>\<open>frame.text\<close>, read only from a frame that is a \<^verbatim>\<open>TextFrame\<close>.\<close>

fun frame_text :: "frame \<Rightarrow> string" where
  "frame_text (TextFrame t) = t"
| "frame_text (StoryPageFrame t) = t"
| "frame_text (StoryImageFrame t) = t"
| "frame_text (StoryPromptFrame t) = t"
| "frame_text f = []"

text \<open>
  What \<^verbatim>\<open>push_frame\<close> is called with: either the very frame object that
  \<^verbatim>\<open>process_frame\<close> received (\<open>Forwarded\<close>), or a frame the processor built
  or took from \<^verbatim>\<open>sounds\<close> (\<open>Emitted\<close>).
\<close>

datatype push = Forwarded frame | Emitted frame

subsection \<open>The regular expressions\<close>

text \<open>
  All patterns are used without \<^verbatim>\<open>re.DOTALL\<close>: a dot matches every character
  but the newline.
\<close>

abbreviation newline :: char where
  "newline \<equiv> CHR 0x0A"

text \<open>
  The rest of \<^verbatim>\<open><(.*?)>\<close> once the opening bracket has matched: the lazy
  \<^verbatim>\<open>.*?\<close> takes one more character at a time, never a newline, until the
  closing bracket matches. The result is group 1 and the text after the match.
\<close>

fun lazy_until_close :: "string \<Rightarrow> (string \<times> string) option" where
  "lazy_until_close [] = None"
| "lazy_until_close (c # cs) =
     (if c = CHR ''>'' then Some ([], cs)
      else if c = newline then None
      else map_option (\<lambda>(p, r). (c # p, r)) (lazy_until_close cs))"

text \<open>
  \<^verbatim>\<open>re.search(r"<(.*?)>", text)\<close>: the match at the leftmost position where
  one exists. The result is the text before the match, group 1, and the text after
  the match. The source runs this search three times on the same text, as
  \<^verbatim>\<open>re.search(r"<.*?>", ...)\<close> for the test, with the group for the prompt, and
  inside \<^verbatim>\<open>re.sub(r"<.*?>", "", ..., count=1)\<close>, whose result is the text
  before the match followed by the text after it.
\<close>

fun re_search_image :: "string \<Rightarrow> (string \<times> string \<times> string) option" where
  "re_search_image [] = None"
| "re_search_image (c # cs) =
     (case (if c = CHR ''<'' then lazy_until_close cs else None) of
        Some (p, r) \<Rightarrow> Some ([], p, r)
      | None \<Rightarrow> map_option (\<lambda>(b, p, r). (c # b, p, r)) (re_search_image cs))"

text \<open>
  \<^verbatim>\<open>\[[bB]reak\]\<close> at the head of the text, as \<^verbatim>\<open>re.search\<close> compiles it
  (no flag): only the letter b may be upper case.
\<close>

fun break_here :: "string \<Rightarrow> bool" where
  "break_here (c0 # c1 # c2 # c3 # c4 # c5 # c6 # cs) =
     (c0 = CHR ''['' \<and> (c1 = CHR ''b'' \<or> c1 = CHR ''B'') \<and> c2 = CHR ''r'' \<and> c3 = CHR ''e''
      \<and> c4 = CHR ''a'' \<and> c5 = CHR ''k'' \<and> c6 = CHR '']'')"
| "break_here cs = False"

text \<open>
  The pattern \<^verbatim>\<open>.*\[[bB]reak\].*\<close> anchored at the head of the text: the first
  \<^verbatim>\<open>.*\<close> takes some characters, none a newline, then the marker matches; the
  last \<^verbatim>\<open>.*\<close> matches the empty text at least.
\<close>

fun match_break :: "string \<Rightarrow> bool" where
  "match_break [] = False"
| "match_break (c # cs) = (break_here (c # cs) \<or> (c \<noteq> newline \<and> match_break cs))"

text \<open>\<^verbatim>\<open>re.search(r".*\[[bB]reak\].*", text)\<close>: a match at some position.\<close>

fun re_search_break :: "string \<Rightarrow> bool" where
  "re_search_break [] = False"
| "re_search_break (c # cs) = (match_break (c # cs) \<or> re_search_break cs)"

text \<open>
  The same marker under \<^verbatim>\<open>re.IGNORECASE\<close>, as \<^verbatim>\<open>re.sub\<close> compiles it:
  every letter in either case. (Among the code points below 256 only the two cases
  of each letter are equal when case is ignored.)
\<close>

fun break_here_ignorecase :: "string \<Rightarrow> bool" where
  "break_here_ignorecase (c0 # c1 # c2 # c3 # c4 # c5 # c6 # cs) =
     (c0 = CHR ''['' \<and> (c1 = CHR ''b'' \<or> c1 = CHR ''B'') \<and> (c2 = CHR ''r'' \<or> c2 = CHR ''R'')
      \<and> (c3 = CHR ''e'' \<or> c3 = CHR ''E'') \<and> (c4 = CHR ''a'' \<or> c4 = CHR ''A'')
      \<and> (c5 = CHR ''k'' \<or> c5 = CHR ''K'') \<and> c6 = CHR '']'')"
| "break_here_ignorecase cs = False"

text \<open>
  \<^verbatim>\<open>re.sub(r"\[[bB]reak\]", "", text, flags=re.IGNORECASE)\<close>: from left to
  right, a marker is dropped and the scan goes on behind it; any other character is
  kept.
\<close>

fun re_sub_break :: "string \<Rightarrow> string" where
  "re_sub_break [] = []"
| "re_sub_break (c # cs) =
     (if break_here_ignorecase (c # cs) then re_sub_break (drop 6 cs)
      else c # re_sub_break cs)"

text \<open>\<^verbatim>\<open>text.replace("\n", " ")\<close>\<close>

definition replace_newlines :: "string \<Rightarrow> string" where
  "replace_newlines t = map (\<lambda>c. if c = newline then CHR '' '' else c) t"

subsection \<open>StoryProcessor\<close>

text \<open>
  The attributes of a \<^verbatim>\<open>StoryProcessor\<close>: \<^verbatim>\<open>_messages\<close> (role and content
  of each message; \<^verbatim>\<open>process_frame\<close> never reads it), the buffer
  \<^verbatim>\<open>_text\<close> and the list \<^verbatim>\<open>_story\<close>, which the caller shares.
\<close>

record story_processor =
  sp_messages :: "(string \<times> string) list"
  sp_text :: string
  sp_story :: "string list"

text \<open>\<^verbatim>\<open>StoryProcessor(messages, story)\<close>\<close>

definition init :: "(string \<times> string) list \<Rightarrow> string list \<Rightarrow> story_processor" where
  "init messages story = \<lparr>sp_messages = messages, sp_text = [], sp_story = story\<rparr>"

text \<open>
  The block under \<^verbatim>\<open># IMAGE PROMPT\<close>. The inner test for a second closing
  bracket only guards a \<^verbatim>\<open>pass\<close> and changes nothing.
\<close>

definition image_prompt_step :: "story_processor \<Rightarrow> push list \<times> story_processor" where
  "image_prompt_step s =
     (case re_search_image (sp_text s) of
        Some (before, image_prompt, after) \<Rightarrow>
          ([Emitted (StoryImageFrame image_prompt)], s\<lparr>sp_text := before @ after\<rparr>)
      | None \<Rightarrow> ([], s))"

text \<open>The block under \<^verbatim>\<open># STORY PAGE\<close>.\<close>

definition story_page_step :: "story_processor \<Rightarrow> push list \<times> story_processor" where
  "story_page_step s =
     (if re_search_break (sp_text s) then
        let t = replace_newlines (re_sub_break (sp_text s)) in
        if length t > 2 then
          ([Emitted (StoryPageFrame t), Emitted (DailyTransportMessageFrame CUE_ASSISTANT_TURN)],
           s\<lparr>sp_story := sp_story s @ [t], sp_text := []\<rparr>)
        else ([], s\<lparr>sp_text := []\<rparr>)
      else ([], s))"

text \<open>
  \<^verbatim>\<open>StoryProcessor.process_frame\<close>: the frames pushed, in order, and the
  processor afterwards. The direction argument is not used by the source.
\<close>

definition process_frame :: "frame \<Rightarrow> story_processor \<Rightarrow> push list \<times> story_processor" where
  "process_frame f s =
     (if f = UserStoppedSpeakingFrame then
        ([Emitted (DailyTransportMessageFrame CUE_ASSISTANT_TURN), Emitted (sounds talking)], s)
      else if isinstance_TextFrame f then
        let s1 = s\<lparr>sp_text := sp_text s @ frame_text f\<rparr>;
            (out1, s2) = image_prompt_step s1;
            (out2, s3) = story_page_step s2
        in (out1 @ out2, s3)
      else if f = LLMFullResponseEndFrame then
        ([Emitted (StoryPromptFrame (sp_text s)), Forwarded f,
          Emitted (DailyTransportMessageFrame CUE_USER_TURN), Emitted (sounds listening)],
         s\<lparr>sp_text := []\<rparr>)
      else ([Forwarded f], s))"

text \<open>Frames processed one after the other; the pushes of all of them, in order.\<close>

fun process_frames :: "frame list \<Rightarrow> story_processor \<Rightarrow> push list \<times> story_processor" where
  "process_frames [] s = ([], s)"
| "process_frames (f # fs) s =
     (let (out, s1) = process_frame f s;
          (outs, s2) = process_frames fs s1
      in (out @ outs, s2))"

subsection \<open>Reading the pushed frames\<close>

text \<open>The frame handed to \<^verbatim>\<open>push_frame\<close>, received or built.\<close>

fun pushed_frame :: "push \<Rightarrow> frame" where
  "pushed_frame (Forwarded f) = f"
| "pushed_frame (Emitted f) = f"

text \<open>The prompts of the image frames among the pushed frames, in order.\<close>

fun image_requests :: "push list \<Rightarrow> string list" where
  "image_requests [] = []"
| "image_requests (x # xs) =
     (case pushed_frame x of StoryImageFrame p \<Rightarrow> p # image_requests xs
      | _ \<Rightarrow> image_requests xs)"

text \<open>The texts of the story page frames among the pushed frames, in order.\<close>

fun story_pages :: "push list \<Rightarrow> string list" where
  "story_pages [] = []"
| "story_pages (x # xs) =
     (case pushed_frame x of StoryPageFrame t \<Rightarrow> t # story_pages xs
      | _ \<Rightarrow> story_pages xs)"

text \<open>The cues of the messages for the user interface among the pushed frames, in order.\<close>

fun cue_messages :: "push list \<Rightarrow> cue list" where
  "cue_messages [] = []"
| "cue_messages (x # xs) =
     (case pushed_frame x of DailyTransportMessageFrame q \<Rightarrow> q # cue_messages xs
      | _ \<Rightarrow> cue_messages xs)"

section \<open>Properties\<close>

subsection \<open>Facts about the patterns\<close>

text \<open>
  A match of the image pattern splits the text into the part before it, the prompt
  between the brackets, free of closing brackets and newlines, and the part after it.
  Text appended behind a match leaves the match as it is, and a text without a match
  has none in its beginnings and endings. Where the text after the only match has no
  match, the text without the matched part has none either: an opening bracket before
  the match stays cut off from every closing bracket by a newline.
\<close>

lemma lazy_until_close_SomeD:
  "lazy_until_close s = Some (p, r) \<Longrightarrow>
     s = p @ CHR ''>'' # r \<and> CHR ''>'' \<notin> set p \<and> newline \<notin> set p"
  by (induction s arbitrary: p) (auto split: if_splits)



lemma re_search_image_SomeD:
  "re_search_image s = Some (b, p, r) \<Longrightarrow>
     s = b @ CHR ''<'' # p @ CHR ''>'' # r \<and> CHR ''>'' \<notin> set p \<and> newline \<notin> set p"
proof (induction s arbitrary: b)
  case Nil
  then show ?case by simp
next
  case (Cons c cs)
  show ?case
  proof (cases "if c = CHR ''<'' then lazy_until_close cs else None")
    case None
    with Cons.prems obtain b' where b: "b = c # b'" and s: "re_search_image cs = Some (b', p, r)"
      by auto
    from Cons.IH [OF s] b show ?thesis by simp
  next
    case (Some pr)
    then obtain p' r' where pr: "pr = (p', r')" by (cases pr)
    from Some pr Cons.prems have e: "b = []" "p' = p" "r' = r" by auto
    from Some pr have c: "c = CHR ''<''" and l: "lazy_until_close cs = Some (p', r')"
      by (auto split: if_splits)
    from lazy_until_close_SomeD [OF l] e c show ?thesis by simp
  qed
qed








lemma re_search_break_prepend: "re_search_break b \<Longrightarrow> re_search_break (a @ b)"
  by (induction a) (auto simp del: match_break.simps)

lemma break_here_iff:
  "break_here s \<longleftrightarrow> (\<exists>v. s = ''[break]'' @ v \<or> s = ''[Break]'' @ v)"
proof
  assume "break_here s"
  then show "\<exists>v. s = ''[break]'' @ v \<or> s = ''[Break]'' @ v"
    by (rule break_here.elims) auto
next
  assume "\<exists>v. s = ''[break]'' @ v \<or> s = ''[Break]'' @ v"
  then show "break_here s" by auto
qed

lemma match_break_imp_search:
  "match_break s \<Longrightarrow> \<exists>u v. s = u @ ''[break]'' @ v \<or> s = u @ ''[Break]'' @ v"
proof (induction s)
  case Nil
  then show ?case by simp
next
  case (Cons c cs)
  show ?case
  proof (cases "break_here (c # cs)")
    case True
    then obtain v where "c # cs = ''[break]'' @ v \<or> c # cs = ''[Break]'' @ v"
      unfolding break_here_iff by blast
    then have "c # cs = [] @ ''[break]'' @ v \<or> c # cs = [] @ ''[Break]'' @ v" by simp
    then show ?thesis by blast
  next
    case False
    with Cons.prems have "match_break cs" by (simp del: break_here.simps)
    from Cons.IH [OF this] obtain u v where "cs = u @ ''[break]'' @ v \<or> cs = u @ ''[Break]'' @ v"
      by blast
    then have "c # cs = (c # u) @ ''[break]'' @ v \<or> c # cs = (c # u) @ ''[Break]'' @ v" by simp
    then show ?thesis by blast
  qed
qed

lemma re_search_break_iff:
  "re_search_break s \<longleftrightarrow> (\<exists>u v. s = u @ ''[break]'' @ v \<or> s = u @ ''[Break]'' @ v)"
proof
  assume "re_search_break s"
  then show "\<exists>u v. s = u @ ''[break]'' @ v \<or> s = u @ ''[Break]'' @ v"
  proof (induction s)
    case Nil
    then show ?case by simp
  next
    case (Cons c cs)
    show ?case
    proof (cases "match_break (c # cs)")
      case True
      then show ?thesis by (rule match_break_imp_search)
    next
      case False
      with Cons.prems have "re_search_break cs" by (simp del: match_break.simps)
      from Cons.IH [OF this] obtain u v where "cs = u @ ''[break]'' @ v \<or> cs = u @ ''[Break]'' @ v"
        by blast
      then have "c # cs = (c # u) @ ''[break]'' @ v \<or> c # cs = (c # u) @ ''[Break]'' @ v" by simp
      then show ?thesis by blast
    qed
  qed
next
  assume "\<exists>u v. s = u @ ''[break]'' @ v \<or> s = u @ ''[Break]'' @ v"
  then obtain u v where s: "s = u @ ''[break]'' @ v \<or> s = u @ ''[Break]'' @ v" by blast
  have "re_search_break (''[break]'' @ v)" "re_search_break (''[Break]'' @ v)" by simp_all
  with re_search_break_prepend [of "''[break]'' @ v" u]
    re_search_break_prepend [of "''[Break]'' @ v" u]
  have "re_search_break (u @ ''[break]'' @ v)" "re_search_break (u @ ''[Break]'' @ v)"
    by blast+
  with s show "re_search_break s" by blast
qed

text \<open>
  The search takes the letter b in either case and every other letter in lower case
  only; the removal takes every letter in either case.
\<close>

lemma upper_case_marker:
  "\<not> re_search_break ''abc[BREAK]'' \<and> re_sub_break ''abc[BREAK]'' = ''abc''"
  by simp

subsection \<open>Facts about the processor\<close>


lemma story_pages_append: "story_pages (xs @ ys) = story_pages xs @ story_pages ys"
  by (induction xs) (auto split: frame.splits)

lemma cue_messages_append: "cue_messages (xs @ ys) = cue_messages xs @ cue_messages ys"
  by (induction xs) (auto split: frame.splits)

lemma story_page_step_text:
  "sp_text (snd (story_page_step s)) = (if re_search_break (sp_text s) then [] else sp_text s)"
  by (simp add: story_page_step_def Let_def)



lemma process_text_no_image:
  "re_search_image (sp_text s @ t) = None \<Longrightarrow>
     process_frame (TextFrame t) s = story_page_step (s\<lparr>sp_text := sp_text s @ t\<rparr>)"
  by (simp add: process_frame_def image_prompt_step_def)

lemma process_text_image:
  "re_search_image (sp_text s @ t) = Some (b, p, r) \<Longrightarrow>
     process_frame (TextFrame t) s =
       (Emitted (StoryImageFrame p) # fst (story_page_step (s\<lparr>sp_text := b @ r\<rparr>)),
        snd (story_page_step (s\<lparr>sp_text := b @ r\<rparr>)))"
  by (simp add: process_frame_def image_prompt_step_def case_prod_unfold Let_def)






subsection \<open>The claims\<close>






text \<open>
  C3: whatever the buffer holds, the empty buffer included, the end of a full response
  pushes, in this order, a prompt frame with the buffer's content, the frame received,
  the user's-turn cue and the listening sound, and leaves the buffer empty.
\<close>

theorem full_response_end:
  "process_frame LLMFullResponseEndFrame s =
     ([Emitted (StoryPromptFrame (sp_text s)), Forwarded LLMFullResponseEndFrame,
       Emitted (DailyTransportMessageFrame CUE_USER_TURN), Emitted (sounds listening)],
      s\<lparr>sp_text := []\<rparr>)
   \<and> sp_text (snd (process_frame LLMFullResponseEndFrame s)) = []"
  by (simp add: process_frame_def)


text \<open>
  C5, as the code has it: a pass over a text chunk first appends the chunk to the
  buffer. A match of the image pattern then takes exactly the matched text out of the
  buffer and keeps the text before and after it; a break marker found after that
  empties the buffer; nothing else changes the buffer in that pass. A user-stopped
  frame and a frame of another class leave the buffer as it is, and the end of a full
  response empties it.
\<close>

theorem buffer_after_frame:
  "sp_text (snd (process_frame (TextFrame t) s)) =
     (case re_search_image (sp_text s @ t) of
        None \<Rightarrow> if re_search_break (sp_text s @ t) then [] else sp_text s @ t
      | Some (before, image_prompt, after) \<Rightarrow>
          if re_search_break (before @ after) then [] else before @ after)
   \<and> (case re_search_image (sp_text s @ t) of
        None \<Rightarrow> True
      | Some (before, image_prompt, after) \<Rightarrow>
          sp_text s @ t = before @ CHR ''<'' # image_prompt @ CHR ''>'' # after)
   \<and> sp_text (snd (process_frame UserStoppedSpeakingFrame s)) = sp_text s
   \<and> sp_text (snd (process_frame (OtherFrame n) s)) = sp_text s
   \<and> sp_text (snd (process_frame LLMFullResponseEndFrame s)) = []"
proof (cases "re_search_image (sp_text s @ t)")
  case None
  then show ?thesis
    by (simp add: process_text_no_image story_page_step_text) (simp add: process_frame_def)
next
  case (Some m)
  obtain b p r where m: "m = (b, p, r)" by (cases m)
  with Some have found: "re_search_image (sp_text s @ t) = Some (b, p, r)" by simp
  from re_search_image_SomeD [OF found]
  have shape: "sp_text s @ t = b @ CHR ''<'' # p @ CHR ''>'' # r" by simp
  have "sp_text (snd (process_frame (TextFrame t) s))
      = (if re_search_break (b @ r) then [] else b @ r)"
    by (simp add: process_text_image [OF found] story_page_step_text)
  moreover have "sp_text (snd (process_frame UserStoppedSpeakingFrame s)) = sp_text s"
    "sp_text (snd (process_frame (OtherFrame n) s)) = sp_text s"
    "sp_text (snd (process_frame LLMFullResponseEndFrame s)) = []"
    by (simp_all add: process_frame_def)
  ultimately show ?thesis
    unfolding found option.case prod.case using shape by simp
qed

text \<open>
  C5 as stated fails: after the chunk \<^verbatim>\<open>"a<b>c"\<close> the image prompt
  \<^verbatim>\<open>"b"\<close> is resolved and the buffer holds \<^verbatim>\<open>"ac"\<close>, not the empty
  string.
\<close>

theorem image_prompt_keeps_rest_counterexample:
  "image_requests (fst (process_frame (TextFrame ''a<b>c'') (init [] []))) = [''b'']
   \<and> sp_text (snd (process_frame (TextFrame ''a<b>c'') (init [] []))) = ''ac''
   \<and> sp_text (snd (process_frame (TextFrame ''a<b>c'') (init [] []))) \<noteq> []"
  by (simp add: init_def process_frame_def image_prompt_step_def story_page_step_def Let_def)




text \<open>
  C7: in a pass over a text chunk, when the break marker is found in the buffer (as
  the image prompt block leaves it) and the buffer's text, with every marker removed
  and every newline replaced by a space, has length at most 2, the story is left as it
  is, no story page frame and no cue are pushed, and the buffer is empty afterwards.
\<close>

theorem short_page_dropped:
  assumes "re_search_break (sp_text (snd (image_prompt_step (s\<lparr>sp_text := sp_text s @ t\<rparr>))))"
    and "length (replace_newlines (re_sub_break
           (sp_text (snd (image_prompt_step (s\<lparr>sp_text := sp_text s @ t\<rparr>)))))) \<le> 2"
  shows "sp_story (snd (process_frame (TextFrame t) s)) = sp_story s
    \<and> story_pages (fst (process_frame (TextFrame t) s)) = []
    \<and> cue_messages (fst (process_frame (TextFrame t) s)) = []
    \<and> sp_text (snd (process_frame (TextFrame t) s)) = []"
proof -
  let ?s2 = "snd (image_prompt_step (s\<lparr>sp_text := sp_text s @ t\<rparr>))"
  have split: "process_frame (TextFrame t) s
      = (fst (image_prompt_step (s\<lparr>sp_text := sp_text s @ t\<rparr>)) @ fst (story_page_step ?s2),
         snd (story_page_step ?s2))"
    by (simp add: process_frame_def case_prod_unfold Let_def)
  from assms have drop: "story_page_step ?s2 = ([], ?s2\<lparr>sp_text := []\<rparr>)"
    by (simp add: story_page_step_def Let_def)
  have kept: "sp_story ?s2 = sp_story s"
    by (simp add: image_prompt_step_def split: option.splits)
  have quiet: "story_pages (fst (image_prompt_step (s\<lparr>sp_text := sp_text s @ t\<rparr>))) = []"
    "cue_messages (fst (image_prompt_step (s\<lparr>sp_text := sp_text s @ t\<rparr>))) = []"
    by (simp_all add: image_prompt_step_def split: option.splits)
  show ?thesis
    by (simp add: split drop kept quiet)
qed

theorem short_page_dropped_witness:
  "re_search_break (sp_text (snd (image_prompt_step
       ((init [] [''Once.''])\<lparr>sp_text := sp_text (init [] [''Once.'']) @ ''<a cat>A[Break]''\<rparr>))))
   \<and> length (replace_newlines (re_sub_break (sp_text (snd (image_prompt_step
       ((init [] [''Once.''])\<lparr>sp_text := sp_text (init [] [''Once.'']) @ ''<a cat>A[Break]''\<rparr>))))))
       \<le> 2
   \<and> sp_story (snd (process_frame (TextFrame ''<a cat>A[Break]'') (init [] [''Once.''])))
       = sp_story (init [] [''Once.''])
   \<and> story_pages (fst (process_frame (TextFrame ''<a cat>A[Break]'') (init [] [''Once.'']))) = []
   \<and> cue_messages (fst (process_frame (TextFrame ''<a cat>A[Break]'') (init [] [''Once.'']))) = []
   \<and> sp_text (snd (process_frame (TextFrame ''<a cat>A[Break]'') (init [] [''Once.'']))) = []"
proof -
  have h1: "re_search_break (sp_text (snd (image_prompt_step
       ((init [] [''Once.''])\<lparr>sp_text := sp_text (init [] [''Once.'']) @ ''<a cat>A[Break]''\<rparr>))))"
    by (simp add: init_def image_prompt_step_def)
  have h2: "length (replace_newlines (re_sub_break (sp_text (snd (image_prompt_step
       ((init [] [''Once.''])\<lparr>sp_text := sp_text (init [] [''Once.'']) @ ''<a cat>A[Break]''\<rparr>))))))
       \<le> 2"
    by (simp add: init_def image_prompt_step_def replace_newlines_def)
  from short_page_dropped [OF h1 h2] h1 h2 show ?thesis by blast
qed

text \<open>
  C8, as the code has it: the three chunks \<^verbatim>\<open>"Once upon a time. "\<close>,
  \<^verbatim>\<open>"[break] <a castle at sunset> "\<close>, \<^verbatim>\<open>"The princess woke up.[break]"\<close>
  push the image frame first, then the page \<^verbatim>\<open>"Once upon a time.   "\<close> (three
  spaces at its end) and a cue, then the page \<^verbatim>\<open>"The princess woke up."\<close> (no
  space at its head) and a cue; the story, empty before, holds these two pages in this
  order.
\<close>

theorem scenario_events:
  "process_frames [TextFrame ''Once upon a time. '',
       TextFrame ''[break] <a castle at sunset> '',
       TextFrame ''The princess woke up.[break]''] (init messages []) =
     ([Emitted (StoryImageFrame ''a castle at sunset''),
       Emitted (StoryPageFrame ''Once upon a time.   ''),
       Emitted (DailyTransportMessageFrame CUE_ASSISTANT_TURN),
       Emitted (StoryPageFrame ''The princess woke up.''),
       Emitted (DailyTransportMessageFrame CUE_ASSISTANT_TURN)],
      \<lparr>sp_messages = messages, sp_text = [],
         sp_story = [''Once upon a time.   '', ''The princess woke up.'']\<rparr>)"
  by (simp add: init_def process_frame_def image_prompt_step_def story_page_step_def
      replace_newlines_def Let_def)

text \<open>
  C8 as stated fails: the pushed frames are not the page, the cue, the image frame,
  the second page and the cue in that order, with the page texts
  \<^verbatim>\<open>"Once upon a time. "\<close> and \<^verbatim>\<open>" The princess woke up."\<close>.
\<close>

theorem scenario_counterexample:
  "\<not> (fst (process_frames [TextFrame ''Once upon a time. '',
            TextFrame ''[break] <a castle at sunset> '',
            TextFrame ''The princess woke up.[break]''] (init [] [])) =
        [Emitted (StoryPageFrame ''Once upon a time. ''),
         Emitted (DailyTransportMessageFrame CUE_ASSISTANT_TURN),
         Emitted (StoryImageFrame ''a castle at sunset''),
         Emitted (StoryPageFrame '' The princess woke up.''),
         Emitted (DailyTransportMessageFrame CUE_ASSISTANT_TURN)]
      \<and> sp_story (snd (process_frames [TextFrame ''Once upon a time. '',
            TextFrame ''[break] <a castle at sunset> '',
            TextFrame ''The princess woke up.[break]''] (init [] []))) =
        [''Once upon a time. '', '' The princess woke up.''])"
  by (simp add: init_def process_frame_def image_prompt_step_def story_page_step_def
      replace_newlines_def Let_def)

text \<open>
  C10: a pass over a user-stopped frame or over a text frame (of the class or of a
  subclass) never pushes a frame it received; the end of a full response is pushed
  again, once, and is the only received frame among the pushes of its pass; a frame of
  any other class is pushed again as the only frame, and the processor is unchanged.
\<close>

theorem only_full_response_end_forwarded:
  "(f = UserStoppedSpeakingFrame \<or> isinstance_TextFrame f \<longrightarrow>
      (\<forall>g. Forwarded g \<notin> set (fst (process_frame f s))))
   \<and> (f = LLMFullResponseEndFrame \<longrightarrow>
      [x \<leftarrow> fst (process_frame f s). \<exists>g. x = Forwarded g] = [Forwarded f])
   \<and> (f \<noteq> UserStoppedSpeakingFrame \<and> \<not> isinstance_TextFrame f \<and> f \<noteq> LLMFullResponseEndFrame \<longrightarrow>
      process_frame f s = ([Forwarded f], s))"
proof -
  have "Forwarded g \<notin> set (fst (image_prompt_step s'))" for g s'
    by (simp add: image_prompt_step_def split: option.splits)
  moreover have "Forwarded g \<notin> set (fst (story_page_step s'))" for g s'
    by (simp add: story_page_step_def Let_def)
  ultimately show ?thesis
    by (simp add: process_frame_def case_prod_unfold Let_def)
qed

theorem only_full_response_end_forwarded_witness:
  "(TextFrame ''Once.[break]'' = UserStoppedSpeakingFrame \<or> isinstance_TextFrame (TextFrame ''Once.[break]''))
   \<and> (\<forall>g. Forwarded g \<notin> set (fst (process_frame (TextFrame ''Once.[break]'') (init [] []))))
   \<and> (\<forall>g. Forwarded g \<notin> set (fst (process_frame UserStoppedSpeakingFrame (init [] []))))
   \<and> [x \<leftarrow> fst (process_frame LLMFullResponseEndFrame (init [] [])). \<exists>g. x = Forwarded g]
       = [Forwarded LLMFullResponseEndFrame]
   \<and> OtherFrame 7 \<noteq> UserStoppedSpeakingFrame \<and> \<not> isinstance_TextFrame (OtherFrame 7)
   \<and> OtherFrame 7 \<noteq> LLMFullResponseEndFrame
   \<and> process_frame (OtherFrame 7) (init [] []) = ([Forwarded (OtherFrame 7)], init [] [])"
  using only_full_response_end_forwarded [of "TextFrame ''Once.[break]''" "init [] []"]
    only_full_response_end_forwarded [of UserStoppedSpeakingFrame "init [] []"]
    only_full_response_end_forwarded [of LLMFullResponseEndFrame "init [] []"]
    only_full_response_end_forwarded [of "OtherFrame 7" "init [] []"]
  by simp

end
